theory Spec2Isabelle
  imports Main "HOL-Library.AList"
begin

section \<open>Python strings\<close>

text \<open>
  \<^verbatim>\<open>s.replace(old, new)\<close> of Python's \<^verbatim>\<open>str\<close>: the string is scanned from the left,
  every occurrence of \<^verbatim>\<open>old\<close> that does not overlap an earlier one is replaced by
  \<^verbatim>\<open>new\<close>, and the scan goes on behind the occurrence (the replacement is not scanned
  again). For an empty \<^verbatim>\<open>old\<close> Python puts \<^verbatim>\<open>new\<close> before every character and at the
  end. The script only calls \<^verbatim>\<open>file.replace('.tgz', '')\<close>.
\<close>

function replace :: "string \<Rightarrow> string \<Rightarrow> string \<Rightarrow> string" where
  "replace [] old new = (if old = [] then new else [])"
| "replace (c # s) old new =
     (if old = [] then new @ c # replace s old new
      else if take (length old) (c # s) = old
        then new @ replace (drop (length old) (c # s)) old new
      else c # replace s old new)"
  by pat_completeness auto
termination
  by (relation "measure (\<lambda>(s, old, new). length s)") (auto simp: neq_Nil_conv)

text \<open>
  The canonical name as the specification words it: the suffix is taken off the end of
  the name, once, and a name that does not end in it is left as it is. It is here to be
  compared with what the script computes, \<^verbatim>\<open>file.replace('.tgz', '')\<close>.
\<close>

definition strip_suffix_spec :: "string \<Rightarrow> string \<Rightarrow> string" where
  "strip_suffix_spec suffix s =
     (if length suffix \<le> length s \<and> drop (length s - length suffix) s = suffix
      then take (length s - length suffix) s else s)"

abbreviation canonical_name_spec :: "string \<Rightarrow> string" where
  "canonical_name_spec file \<equiv> strip_suffix_spec ''.tgz'' file"

text \<open>Whether \<open>old\<close> occurs somewhere in a string (Python's \<^verbatim>\<open>old in s\<close>).\<close>

fun occurs :: "string \<Rightarrow> string \<Rightarrow> bool" where
  "occurs old [] = (old = [])"
| "occurs old (c # s) = (take (length old) (c # s) = old \<or> occurs old s)"

section \<open>Constants of the script\<close>

definition BACKUPS_DIR :: string where
  "BACKUPS_DIR = ''backups''"

definition APP_BACKUPS_DIR :: string where
  "APP_BACKUPS_DIR = ''app:/mc/backups''"

section \<open>The two directories\<close>

text \<open>
  The run works on two flat directories: the local backup directory \<^verbatim>\<open>backups\<close> and the
  folder \<^verbatim>\<open>app:/mc/backups\<close> on the disk. Both are association lists from entry names to
  what is stored under the name, in listing order. A local entry is a regular file with
  its bytes, a directory, or a symbolic link to nothing; a remote entry is a file with
  its bytes or a directory.
\<close>

type_synonym bytes = string

datatype entry = RegularFile bytes | Directory | DanglingLink

datatype node = FileNode bytes | DirNode

record world =
  local_dir :: "(string \<times> entry) list"
  disk :: "(string \<times> node) list"

text \<open>The fields \<^verbatim>\<open>name\<close> and \<^verbatim>\<open>type\<close> of an entry of a remote listing.\<close>

record resource =
  name :: string
  type :: string

text \<open>A path \<^verbatim>\<open>f'{dir}/{name}'\<close> read back: the name below \<^verbatim>\<open>dir\<close>, if the path lies there.\<close>

definition rel_name :: "string \<Rightarrow> string \<Rightarrow> string option" where
  "rel_name dir path =
     (if take (length dir + 1) path = dir @ ''/''
      then Some (drop (length dir + 1) path) else None)"

subsection \<open>The local file system\<close>

text \<open>
  \<^verbatim>\<open>os.listdir(BACKUPS_DIR)\<close> gives the names of all entries of the local directory,
  whatever they are. \<^verbatim>\<open>size = os.stat(path).st_size\<close> followed by \<^verbatim>\<open>open(path, 'rb')\<close> gives
  the bytes of a regular file; where nothing is behind the path \<^verbatim>\<open>os.stat\<close> raises
  \<^verbatim>\<open>FileNotFoundError\<close>, and on a directory \<^verbatim>\<open>open\<close> raises \<^verbatim>\<open>IsADirectoryError\<close>. The size
  only feeds the progress bar.
\<close>

datatype error = FileNotFoundError string | IsADirectoryError string

definition os_listdir :: "world \<Rightarrow> string list" where
  "os_listdir w = map fst (local_dir w)"

definition open_rb :: "string \<Rightarrow> world \<Rightarrow> error + bytes" where
  "open_rb path w =
     (case rel_name BACKUPS_DIR path of
        None \<Rightarrow> Inl (FileNotFoundError path)
      | Some file \<Rightarrow>
          (case map_of (local_dir w) file of
             None \<Rightarrow> Inl (FileNotFoundError path)
           | Some DanglingLink \<Rightarrow> Inl (FileNotFoundError path)
           | Some Directory \<Rightarrow> Inl (IsADirectoryError path)
           | Some (RegularFile infile) \<Rightarrow> Inr infile))"

subsection \<open>The remote storage accessor\<close>

text \<open>
  Modelled from the spec: the remote storage accessor is the \<^verbatim>\<open>yadisk\<close> client library,
  whose code is not part of the repository. The specification gives its operations as
  \<^verbatim>\<open>listdir(path, fields)\<close>, a finite sequence of entries \<^verbatim>\<open>{name, type}\<close>, each tagged
  file or directory; \<^verbatim>\<open>remove(path, permanently=true)\<close>, an irreversible delete; and
  \<^verbatim>\<open>upload(readable_stream, destination_path)\<close>, which streams the bytes to the
  destination, overwriting if present. Failures of the network or of the
  authorisation are not part of the model. The listing is that of \<^verbatim>\<open>app:/mc/backups\<close>,
  taken once, before the first loop removes anything; a path outside this folder names
  nothing the model holds.
\<close>

definition node_type :: "node \<Rightarrow> string" where
  "node_type n = (case n of FileNode _ \<Rightarrow> ''file'' | DirNode \<Rightarrow> ''dir'')"

definition yadisk_listdir :: "(string \<times> node) list \<Rightarrow> resource list" where
  "yadisk_listdir d = map (\<lambda>(n, nd). \<lparr>name = n, type = node_type nd\<rparr>) d"

definition yadisk_remove :: "string \<Rightarrow> (string \<times> node) list \<Rightarrow> (string \<times> node) list" where
  "yadisk_remove path d =
     (case rel_name APP_BACKUPS_DIR path of
        None \<Rightarrow> d
      | Some n \<Rightarrow> AList.delete n d)"

definition yadisk_upload ::
  "bytes \<Rightarrow> string \<Rightarrow> (string \<times> node) list \<Rightarrow> (string \<times> node) list" where
  "yadisk_upload infile path d =
     (case rel_name APP_BACKUPS_DIR path of
        None \<Rightarrow> d
      | Some n \<Rightarrow> AList.update n (FileNode infile) d)"

section \<open>The synchronisation run\<close>

text \<open>
  The calls that change the remote folder, as the run issues them:
  \<^verbatim>\<open>yadisk.remove(path, permanently=True)\<close> and \<^verbatim>\<open>yadisk.upload(wrapped_file, path)\<close>, the
  latter with the local path the uploaded stream was opened on. The log lines and the
  progress bar change nothing and are left out.
\<close>

datatype call = Remove string | Upload string string

text \<open>
  The first loop of \<^verbatim>\<open>sync\<close>, over the remote listing: an entry of type \<^verbatim>\<open>file\<close> whose
  name followed by \<^verbatim>\<open>.tgz\<close> is not a local name is removed, any other entry of type
  \<^verbatim>\<open>file\<close> is appended to \<^verbatim>\<open>yadisk_files\<close>, and an entry of another type is passed over.
\<close>

fun remote_pass ::
  "string list \<Rightarrow> resource list \<Rightarrow> string list \<Rightarrow> call list \<Rightarrow> (string \<times> node) list
     \<Rightarrow> string list \<times> call list \<times> (string \<times> node) list" where
  "remote_pass local_files [] yadisk_files calls d = (yadisk_files, calls, d)"
| "remote_pass local_files (elem # rest) yadisk_files calls d =
     (if type elem = ''file'' then
        (if name elem @ ''.tgz'' \<notin> set local_files then
           remote_pass local_files rest yadisk_files
             (calls @ [Remove (APP_BACKUPS_DIR @ ''/'' @ name elem)])
             (yadisk_remove (APP_BACKUPS_DIR @ ''/'' @ name elem) d)
         else remote_pass local_files rest (yadisk_files @ [name elem]) calls d)
      else remote_pass local_files rest yadisk_files calls d)"

text \<open>
  The second loop, over the local names: a file whose name without every \<^verbatim>\<open>.tgz\<close> is not
  in \<^verbatim>\<open>yadisk_files\<close> is opened and uploaded under that name; an exception of \<^verbatim>\<open>os.stat\<close>
  or \<^verbatim>\<open>open\<close> ends the run. \<^verbatim>\<open>yadisk_files\<close> is not changed by the loop.
\<close>

fun local_pass ::
  "string list \<Rightarrow> string list \<Rightarrow> call list \<Rightarrow> world \<Rightarrow> error + call list \<times> world" where
  "local_pass yadisk_files [] calls w = Inr (calls, w)"
| "local_pass yadisk_files (file # rest) calls w =
     (if replace file ''.tgz'' '''' \<notin> set yadisk_files then
        (case open_rb (BACKUPS_DIR @ ''/'' @ file) w of
           Inl e \<Rightarrow> Inl e
         | Inr infile \<Rightarrow>
             local_pass yadisk_files rest
               (calls @ [Upload (BACKUPS_DIR @ ''/'' @ file)
                                (APP_BACKUPS_DIR @ ''/'' @ replace file ''.tgz'' '''')])
               (w\<lparr>disk := yadisk_upload infile
                              (APP_BACKUPS_DIR @ ''/'' @ replace file ''.tgz'' '''') (disk w)\<rparr>))
      else local_pass yadisk_files rest calls w)"

definition sync :: "world \<Rightarrow> error + call list \<times> world" where
  "sync w =
     (let local_files = os_listdir w;
          (yadisk_files, calls, d) =
             remote_pass local_files (yadisk_listdir (disk w)) [] [] (disk w)
      in local_pass yadisk_files local_files calls (w\<lparr>disk := d\<rparr>))"

text \<open>What \<^verbatim>\<open>sync\<close> hands to \<^verbatim>\<open>yadisk.remove\<close> for a remote name, and to \<^verbatim>\<open>yadisk.upload\<close> for a local one.\<close>

abbreviation canonical :: "string \<Rightarrow> string" where
  "canonical file \<equiv> replace file ''.tgz'' ''''"

definition remove_call :: "string \<Rightarrow> call" where
  "remove_call n = Remove (APP_BACKUPS_DIR @ ''/'' @ n)"

definition upload_call :: "string \<Rightarrow> call" where
  "upload_call file =
     Upload (BACKUPS_DIR @ ''/'' @ file) (APP_BACKUPS_DIR @ ''/'' @ canonical file)"

fun is_remove :: "call \<Rightarrow> bool" where
  "is_remove (Remove p) = True"
| "is_remove (Upload src p) = False"

fun is_upload :: "call \<Rightarrow> bool" where
  "is_upload (Remove p) = False"
| "is_upload (Upload src p) = True"

text \<open>The remote paths a list of calls removes, and the remote paths it uploads to.\<close>

fun removed :: "call list \<Rightarrow> string list" where
  "removed [] = []"
| "removed (Remove p # cs) = p # removed cs"
| "removed (Upload src p # cs) = removed cs"

fun uploaded :: "call list \<Rightarrow> string list" where
  "uploaded [] = []"
| "uploaded (Remove p # cs) = uploaded cs"
| "uploaded (Upload src p # cs) = p # uploaded cs"

text \<open>The local paths a list of calls uploads to the remote path \<open>p\<close>, in order.\<close>

fun upload_sources :: "string \<Rightarrow> call list \<Rightarrow> string list" where
  "upload_sources p [] = []"
| "upload_sources p (Remove q # cs) = upload_sources p cs"
| "upload_sources p (Upload src q # cs) =
     (if q = p then src # upload_sources p cs else upload_sources p cs)"

text \<open>The names of the files of a remote folder, in listing order.\<close>

fun files :: "(string \<times> node) list \<Rightarrow> string list" where
  "files [] = []"
| "files ((n, FileNode b) # d) = n # files d"
| "files ((n, DirNode) # d) = files d"

text \<open>
  The two branches of the first loop, as filters of the listing: the names it appends to
  \<^verbatim>\<open>yadisk_files\<close> and the names it removes.
\<close>

definition keep_names :: "string list \<Rightarrow> resource list \<Rightarrow> string list" where
  "keep_names local_files es =
     map name (filter (\<lambda>e. type e = ''file'' \<and> name e @ ''.tgz'' \<in> set local_files) es)"

definition delete_names :: "string list \<Rightarrow> resource list \<Rightarrow> string list" where
  "delete_names local_files es =
     map name (filter (\<lambda>e. type e = ''file'' \<and> name e @ ''.tgz'' \<notin> set local_files) es)"

section \<open>The top level of the script\<close>

text \<open>
  What can come out of \<^verbatim>\<open>main()\<close>: it returns, or an exception leaves it. Python's
  exceptions are instances of \<^verbatim>\<open>BaseException\<close>; \<^verbatim>\<open>KeyboardInterrupt\<close> and \<^verbatim>\<open>SystemExit\<close>
  are not instances of \<^verbatim>\<open>Exception\<close>. An exception of a class derived from \<^verbatim>\<open>Exception\<close>
  is given by the name of its class, any other by \<open>BaseExceptionOther\<close>.
\<close>

datatype exc =
    KeyboardInterrupt
  | SystemExit nat
  | ExceptionSubclass string
  | BaseExceptionOther string

text \<open>
  The \<^verbatim>\<open>__main__\<close> block: \<^verbatim>\<open>except KeyboardInterrupt\<close> calls \<^verbatim>\<open>sys.exit(1)\<close>, which raises
  \<^verbatim>\<open>SystemExit(1)\<close>; \<^verbatim>\<open>except Exception\<close> passes the exception to \<^verbatim>\<open>logging.exception\<close>,
  which writes it with its traceback to the log, and the block ends; anything else is not
  caught. The result is the list of exceptions logged and how the block ends.
\<close>

fun main_guard :: "exc + unit \<Rightarrow> exc list \<times> (exc + unit)" where
  "main_guard (Inr u) = ([], Inr u)"
| "main_guard (Inl KeyboardInterrupt) = ([], Inl (SystemExit 1))"
| "main_guard (Inl (ExceptionSubclass c)) = ([ExceptionSubclass c], Inr ())"
| "main_guard (Inl e) = ([], Inl e)"

text \<open>
  How the interpreter ends the process: a script that runs to its end exits with status
  0; \<^verbatim>\<open>SystemExit(n)\<close> exits with the low eight bits of \<open>n\<close> as status and prints nothing; an uncaught
  \<^verbatim>\<open>KeyboardInterrupt\<close> prints its traceback and ends the process as the interrupt signal
  does (status 130); any other uncaught exception prints its traceback and exits with
  status 1. The result is the exit status and whether a traceback was printed.
\<close>

fun interpreter_exit :: "exc + unit \<Rightarrow> nat \<times> bool" where
  "interpreter_exit (Inr u) = (0, False)"
| "interpreter_exit (Inl (SystemExit n)) = (n mod 256, False)"
| "interpreter_exit (Inl KeyboardInterrupt) = (130, True)"
| "interpreter_exit (Inl e) = (1, True)"

record process_end =
  exit_status :: nat
  logged :: "exc list"
  traceback_printed :: bool

definition script :: "exc + unit \<Rightarrow> process_end" where
  "script outcome =
     (let (lg, r) = main_guard outcome; (st, tb) = interpreter_exit r
      in \<lparr>exit_status = st, logged = lg, traceback_printed = tb\<rparr>)"

section \<open>Paths and the two accessors\<close>

lemma rel_name_path [simp]: "rel_name dir (dir @ CHR ''/'' # n) = Some n"
  by (simp add: rel_name_def)

lemma yadisk_remove_path [simp]:
  "yadisk_remove (APP_BACKUPS_DIR @ CHR ''/'' # n) d = AList.delete n d"
  by (simp add: yadisk_remove_def)

lemma yadisk_upload_path [simp]:
  "yadisk_upload infile (APP_BACKUPS_DIR @ CHR ''/'' # n) d = AList.update n (FileNode infile) d"
  by (simp add: yadisk_upload_def)

lemma open_rb_path:
  "open_rb (BACKUPS_DIR @ CHR ''/'' # file) w =
     (case map_of (local_dir w) file of
        None \<Rightarrow> Inl (FileNotFoundError (BACKUPS_DIR @ ''/'' @ file))
      | Some DanglingLink \<Rightarrow> Inl (FileNotFoundError (BACKUPS_DIR @ ''/'' @ file))
      | Some Directory \<Rightarrow> Inl (IsADirectoryError (BACKUPS_DIR @ ''/'' @ file))
      | Some (RegularFile infile) \<Rightarrow> Inr infile)"
  by (simp add: open_rb_def split: option.splits entry.splits)

lemma open_rb_disk [simp]: "open_rb path (w\<lparr>disk := d\<rparr>) = open_rb path w"
  by (simp add: open_rb_def split: option.splits)

lemma open_rb_Inr:
  "open_rb (BACKUPS_DIR @ CHR ''/'' # file) w = Inr infile
     \<longleftrightarrow> map_of (local_dir w) file = Some (RegularFile infile)"
  by (simp add: open_rb_path split: option.splits entry.splits)

lemma files_listdir:
  "map name (filter (\<lambda>e. type e = ''file'') (yadisk_listdir d)) = files d"
  by (induction d rule: files.induct) (simp_all add: yadisk_listdir_def node_type_def)

lemma set_files: "set (files d) = {n. \<exists>b. (n, FileNode b) \<in> set d}"
  by (induction d rule: files.induct) auto

lemma set_files_delete: "set (files (AList.delete k d)) = set (files d) - {k}"
  by (induction d rule: files.induct) auto

lemma set_files_update: "set (files (AList.update k (FileNode b) d)) = insert k (set (files d))"
  by (induction d rule: files.induct) auto

lemma keep_names_listdir:
  "keep_names lf (yadisk_listdir d) = filter (\<lambda>n. n @ ''.tgz'' \<in> set lf) (files d)"
  by (induction d rule: files.induct)
     (simp_all add: keep_names_def yadisk_listdir_def node_type_def)

lemma delete_names_listdir:
  "delete_names lf (yadisk_listdir d) = filter (\<lambda>n. n @ ''.tgz'' \<notin> set lf) (files d)"
  by (induction d rule: files.induct)
     (simp_all add: delete_names_def yadisk_listdir_def node_type_def)

section \<open>The first loop\<close>

lemma remote_pass_eq:
  "remote_pass lf es yf cs d =
     (yf @ keep_names lf es,
      cs @ map remove_call (delete_names lf es),
      fold AList.delete (delete_names lf es) d)"
  by (induction es arbitrary: yf cs d)
     (simp_all add: keep_names_def delete_names_def remove_call_def)

section \<open>The second loop\<close>

lemma local_pass_Cons:
  "local_pass yf (f # fs) cs w =
     (if canonical f \<notin> set yf then
        (case open_rb (BACKUPS_DIR @ ''/'' @ f) w of
           Inl e \<Rightarrow> Inl e
         | Inr infile \<Rightarrow>
             local_pass yf fs (cs @ [upload_call f])
               (w\<lparr>disk := AList.update (canonical f) (FileNode infile) (disk w)\<rparr>))
      else local_pass yf fs cs w)"
  by (simp add: upload_call_def split: sum.splits)

declare local_pass.simps(2) [simp del]

lemma local_pass_calls:
  "local_pass yf fs cs w = Inr (cs', w') \<Longrightarrow>
   cs' = cs @ map upload_call (filter (\<lambda>f. canonical f \<notin> set yf) fs)"
proof (induction fs arbitrary: cs w)
  case Nil
  then show ?case by simp
next
  case (Cons f fs)
  show ?case
  proof (cases "canonical f \<in> set yf")
    case True
    with Cons.prems have "local_pass yf fs cs w = Inr (cs', w')"
      by (simp add: local_pass_Cons)
    from Cons.IH [OF this] True show ?thesis by simp
  next
    case False
    with Cons.prems obtain infile where
      "local_pass yf fs (cs @ [upload_call f])
         (w\<lparr>disk := AList.update (canonical f) (FileNode infile) (disk w)\<rparr>) = Inr (cs', w')"
      by (auto simp: local_pass_Cons split: sum.splits)
    from Cons.IH [OF this] False show ?thesis by simp
  qed
qed

lemma local_pass_local_dir:
  "local_pass yf fs cs w = Inr (cs', w') \<Longrightarrow> local_dir w' = local_dir w"
proof (induction fs arbitrary: cs w)
  case Nil
  then show ?case by simp
next
  case (Cons f fs)
  show ?case
  proof (cases "canonical f \<in> set yf")
    case True
    with Cons.prems have "local_pass yf fs cs w = Inr (cs', w')"
      by (simp add: local_pass_Cons)
    from Cons.IH [OF this] show ?thesis .
  next
    case False
    with Cons.prems obtain infile where
      "local_pass yf fs (cs @ [upload_call f])
         (w\<lparr>disk := AList.update (canonical f) (FileNode infile) (disk w)\<rparr>) = Inr (cs', w')"
      by (auto simp: local_pass_Cons split: sum.splits)
    from Cons.IH [OF this] show ?thesis by simp
  qed
qed

lemma local_pass_files:
  "local_pass yf fs cs w = Inr (cs', w') \<Longrightarrow>
   set (files (disk w')) =
     set (files (disk w)) \<union> canonical ` {f \<in> set fs. canonical f \<notin> set yf}"
proof (induction fs arbitrary: cs w)
  case Nil
  then show ?case by simp
next
  case (Cons f fs)
  show ?case
  proof (cases "canonical f \<in> set yf")
    case True
    with Cons.prems have "local_pass yf fs cs w = Inr (cs', w')"
      by (simp add: local_pass_Cons)
    from Cons.IH [OF this] True show ?thesis by auto
  next
    case False
    with Cons.prems obtain infile where
      "local_pass yf fs (cs @ [upload_call f])
         (w\<lparr>disk := AList.update (canonical f) (FileNode infile) (disk w)\<rparr>) = Inr (cs', w')"
      by (auto simp: local_pass_Cons split: sum.splits)
    from Cons.IH [OF this] False show ?thesis
      by (auto simp: set_files_update)
  qed
qed

lemma local_pass_total:
  "\<forall>f \<in> set fs. \<exists>b. map_of (local_dir w) f = Some (RegularFile b) \<Longrightarrow>
   \<exists>cs' w'. local_pass yf fs cs w = Inr (cs', w')"
proof (induction fs arbitrary: cs w)
  case Nil
  then show ?case by simp
next
  case (Cons f fs)
  from Cons.prems obtain infile where "map_of (local_dir w) f = Some (RegularFile infile)"
    by auto
  then have infile: "open_rb (BACKUPS_DIR @ ''/'' @ f) w = Inr infile"
    by (simp add: open_rb_Inr)
  from Cons.prems have rest: "\<forall>f \<in> set fs. \<exists>b. map_of (local_dir w) f = Some (RegularFile b)"
    by simp
  show ?case
  proof (cases "canonical f \<in> set yf")
    case True
    with Cons.IH [OF rest] show ?thesis by (simp add: local_pass_Cons)
  next
    case False
    let ?w = "w\<lparr>disk := AList.update (canonical f) (FileNode infile) (disk w)\<rparr>"
    from rest have "\<forall>f \<in> set fs. \<exists>b. map_of (local_dir ?w) f = Some (RegularFile b)" by simp
    from Cons.IH [OF this] False infile show ?thesis by (simp add: local_pass_Cons)
  qed
qed

lemma local_pass_opened:
  "local_pass yf fs cs w = Inr (cs', w') \<Longrightarrow> f \<in> set fs \<Longrightarrow> canonical f \<notin> set yf \<Longrightarrow>
   \<exists>b. map_of (local_dir w) f = Some (RegularFile b)"
proof (induction fs arbitrary: cs w)
  case Nil
  then show ?case by simp
next
  case (Cons g fs)
  show ?case
  proof (cases "canonical g \<in> set yf")
    case True
    with Cons.prems have run: "local_pass yf fs cs w = Inr (cs', w')"
      by (simp add: local_pass_Cons)
    from True Cons.prems have "f \<in> set fs" by auto
    from Cons.IH [OF run this Cons.prems(3)] show ?thesis .
  next
    case False
    with Cons.prems obtain infile where
      infile: "map_of (local_dir w) g = Some (RegularFile infile)" and
      run: "local_pass yf fs (cs @ [upload_call g])
         (w\<lparr>disk := AList.update (canonical g) (FileNode infile) (disk w)\<rparr>) = Inr (cs', w')"
      by (auto simp: local_pass_Cons open_rb_Inr split: sum.splits)
    show ?thesis
    proof (cases "f = g")
      case True
      with infile show ?thesis by simp
    next
      case False
      with Cons.prems have "f \<in> set fs" by simp
      from Cons.IH [OF run this Cons.prems(3)] show ?thesis by simp
    qed
  qed
qed

lemma local_pass_skip:
  "\<forall>f \<in> set fs. canonical f \<in> set yf \<Longrightarrow> local_pass yf fs cs w = Inr (cs, w)"
  by (induction fs) (simp_all add: local_pass_Cons)

section \<open>The whole run\<close>

lemma set_files_fold_delete:
  "set (files (fold AList.delete ns d)) = set (files d) - set ns"
  by (induction ns arbitrary: d) (auto simp: set_files_delete)

lemma sync_eq:
  "sync w =
     local_pass (keep_names (os_listdir w) (yadisk_listdir (disk w))) (os_listdir w)
       (map remove_call (delete_names (os_listdir w) (yadisk_listdir (disk w))))
       (w\<lparr>disk := fold AList.delete
                      (delete_names (os_listdir w) (yadisk_listdir (disk w))) (disk w)\<rparr>)"
  by (simp add: sync_def remote_pass_eq Let_def)

lemma sync_total:
  assumes "\<forall>e \<in> snd ` set (local_dir w). \<exists>b. e = RegularFile b"
  shows "\<exists>cs w'. sync w = Inr (cs, w')"
proof -
  have "\<exists>b. map_of (local_dir w) f = Some (RegularFile b)" if "f \<in> set (os_listdir w)" for f
  proof -
    from that obtain e where e: "map_of (local_dir w) f = Some e"
      by (auto simp: os_listdir_def dest: weak_map_of_SomeI)
    then have "(f, e) \<in> set (local_dir w)" by (rule map_of_SomeD)
    with assms e show ?thesis by force
  qed
  then show ?thesis
    unfolding sync_eq by (intro local_pass_total) simp
qed

text \<open>A run on a local directory that holds a subdirectory ends with the exception of \<^verbatim>\<open>open\<close>.\<close>

lemma sync_aborts_on_directory:
  "sync \<lparr>local_dir = [(''old'', Directory)], disk = []\<rparr>
     = Inl (IsADirectoryError (BACKUPS_DIR @ ''/old''))"
  by (simp add: sync_def os_listdir_def yadisk_listdir_def local_pass_Cons open_rb_path)

lemma sync_calls:
  "sync w = Inr (cs, w') \<Longrightarrow>
   cs = map remove_call (delete_names (os_listdir w) (yadisk_listdir (disk w)))
        @ map upload_call
            (filter (\<lambda>f. canonical f \<notin> set (keep_names (os_listdir w) (yadisk_listdir (disk w))))
               (os_listdir w))"
  unfolding sync_eq by (rule local_pass_calls)

lemma sync_local_dir: "sync w = Inr (cs, w') \<Longrightarrow> local_dir w' = local_dir w"
  unfolding sync_eq by (drule local_pass_local_dir) simp

lemma sync_files:
  "sync w = Inr (cs, w') \<Longrightarrow>
   set (files (disk w')) =
     (set (files (disk w)) - set (delete_names (os_listdir w) (yadisk_listdir (disk w))))
     \<union> canonical ` {f \<in> set (os_listdir w).
          canonical f \<notin> set (keep_names (os_listdir w) (yadisk_listdir (disk w)))}"
  unfolding sync_eq by (drule local_pass_files) (simp add: set_files_fold_delete)

lemma removed_append [simp]: "removed (xs @ ys) = removed xs @ removed ys"
  by (induction xs rule: removed.induct) simp_all

lemma uploaded_append [simp]: "uploaded (xs @ ys) = uploaded xs @ uploaded ys"
  by (induction xs rule: uploaded.induct) simp_all

lemma removed_remove_calls [simp]:
  "removed (map remove_call ns) = map (\<lambda>n. APP_BACKUPS_DIR @ ''/'' @ n) ns"
  by (induction ns) (simp_all add: remove_call_def)

lemma removed_upload_calls [simp]: "removed (map upload_call fs) = []"
  by (induction fs) (simp_all add: upload_call_def)

lemma uploaded_remove_calls [simp]: "uploaded (map remove_call ns) = []"
  by (induction ns) (simp_all add: remove_call_def)

lemma uploaded_upload_calls [simp]:
  "uploaded (map upload_call fs) = map (\<lambda>f. APP_BACKUPS_DIR @ ''/'' @ canonical f) fs"
  by (induction fs) (simp_all add: upload_call_def)

lemma upload_sources_append [simp]:
  "upload_sources p (xs @ ys) = upload_sources p xs @ upload_sources p ys"
  by (induction p xs rule: upload_sources.induct) simp_all

lemma upload_sources_remove_calls [simp]: "upload_sources p (map remove_call ns) = []"
  by (induction ns) (simp_all add: remove_call_def)

lemma upload_sources_upload_calls [simp]:
  "upload_sources (APP_BACKUPS_DIR @ CHR ''/'' # c) (map upload_call fs) =
     map (\<lambda>f. BACKUPS_DIR @ ''/'' @ f) (filter (\<lambda>f. canonical f = c) fs)"
  by (induction fs) (simp_all add: upload_call_def)

lemma local_pass_content:
  "local_pass yf fs cs w = Inr (cs', w') \<Longrightarrow> c \<notin> set yf \<Longrightarrow>
   map_of (disk w') c =
     (if filter (\<lambda>f. canonical f = c) fs = [] then map_of (disk w) c
      else (case map_of (local_dir w) (last (filter (\<lambda>f. canonical f = c) fs)) of
              Some (RegularFile b) \<Rightarrow> Some (FileNode b)
            | _ \<Rightarrow> None))"
proof (induction fs arbitrary: cs w)
  case Nil
  then show ?case by simp
next
  case (Cons f fs)
  show ?case
  proof (cases "canonical f \<in> set yf")
    case True
    with Cons.prems have run: "local_pass yf fs cs w = Inr (cs', w')"
      by (simp add: local_pass_Cons)
    from True Cons.prems(2) have "canonical f \<noteq> c" by blast
    with Cons.IH [OF run Cons.prems(2)] show ?thesis by simp
  next
    case False
    with Cons.prems obtain infile where
      infile: "map_of (local_dir w) f = Some (RegularFile infile)" and
      run: "local_pass yf fs (cs @ [upload_call f])
         (w\<lparr>disk := AList.update (canonical f) (FileNode infile) (disk w)\<rparr>) = Inr (cs', w')"
      by (auto simp: local_pass_Cons open_rb_Inr split: sum.splits)
    from Cons.IH [OF run Cons.prems(2)] infile show ?thesis
      by (simp add: AList.update_conv')
  qed
qed

section \<open>Names with \<^verbatim>\<open>.tgz\<close> at the end only\<close>

text \<open>
  On a name made of a stem that \<^verbatim>\<open>replace\<close> leaves as it is (no \<^verbatim>\<open>.tgz\<close> occurs in it)
  and of the suffix \<^verbatim>\<open>.tgz\<close>, the script's \<^verbatim>\<open>file.replace('.tgz', '')\<close> and the removal of the
  suffix agree: both give the stem.
\<close>

lemma length_replace_empty: "old \<noteq> [] \<Longrightarrow> length (replace s old []) \<le> length s"
  by (induction s old "[] :: string" rule: replace.induct) (auto simp: le_SucI intro: le_trans [OF _ diff_le_self])

lemma tgz_not_across:
  assumes "take 4 (c # s) \<noteq> ''.tgz''"
  shows "take 4 (c # s @ ''.tgz'') \<noteq> ''.tgz''"
proof (cases s)
  case Nil
  then show ?thesis by simp
next
  case (Cons a s1)
  show ?thesis
  proof (cases s1)
    case Nil
    with Cons show ?thesis by simp
  next
    case (Cons b s2)
    note s1 = this
    show ?thesis
    proof (cases s2)
      case Nil
      with s1 \<open>s = a # s1\<close> show ?thesis by simp
    next
      case (Cons e s3)
      with s1 \<open>s = a # s1\<close> assms show ?thesis by simp
    qed
  qed
qed

lemma canonical_Cons:
  "canonical (c # s) =
     (if take 4 (c # s) = ''.tgz'' then canonical (drop 4 (c # s)) else c # canonical s)"
  by (simp add: eval_nat_numeral)

lemma canonical_tgz_name: "canonical b = b \<Longrightarrow> canonical (b @ ''.tgz'') = b"
proof (induction b)
  case Nil
  then show ?case by simp
next
  case (Cons c s)
  have no: "take 4 (c # s) \<noteq> ''.tgz''"
  proof
    assume occ: "take 4 (c # s) = ''.tgz''"
    then have "canonical (c # s) = canonical (drop 4 (c # s))"
      by (simp only: canonical_Cons simp_thms if_True)
    moreover have "length (canonical (drop 4 (c # s))) \<le> length (drop 4 (c # s))"
      by (rule length_replace_empty) simp
    ultimately have "length (canonical (c # s)) < length (c # s)" by simp
    with Cons.prems show False by simp
  qed
  with Cons.prems have "canonical s = s"
    by (simp only: canonical_Cons simp_thms if_False list.inject)
  then have "canonical (s @ ''.tgz'') = s" by (rule Cons.IH)
  moreover from no have "take 4 (c # s @ ''.tgz'') \<noteq> ''.tgz''" by (rule tgz_not_across)
  ultimately show ?case
    by (simp only: append_Cons canonical_Cons simp_thms if_False)
qed

lemma strip_suffix_spec_tgz_name: "strip_suffix_spec ''.tgz'' (b @ ''.tgz'') = b"
  by (simp add: strip_suffix_spec_def)

lemma replace_no_occurrence:
  "old \<noteq> [] \<Longrightarrow> \<not> occurs old s \<Longrightarrow> replace s old new = s"
  by (induction s) auto

lemma strip_suffix_spec_cases:
  "strip_suffix_spec suffix s = s \<or> s = strip_suffix_spec suffix s @ suffix"
proof (cases "strip_suffix_spec suffix s = s")
  case True
  then show ?thesis by simp
next
  case False
  then have "drop (length s - length suffix) s = suffix"
    and "strip_suffix_spec suffix s = take (length s - length suffix) s"
    by (auto simp: strip_suffix_spec_def split: if_splits)
  then have "s = strip_suffix_spec suffix s @ suffix"
    by (metis append_take_drop_id)
  then show ?thesis by simp
qed

text \<open>
  Where \<^verbatim>\<open>.tgz\<close> does not occur in a name before its end, that is, not in the name with
  the suffix removed, the script's \<^verbatim>\<open>replace\<close> removes the suffix and nothing else.
\<close>

lemma canonical_eq_spec:
  assumes "\<not> occurs ''.tgz'' (canonical_name_spec f)"
  shows "canonical f = canonical_name_spec f"
proof -
  from assms have stem: "canonical (canonical_name_spec f) = canonical_name_spec f"
    by (intro replace_no_occurrence) simp_all
  from strip_suffix_spec_cases [of "''.tgz''" f]
  consider "canonical_name_spec f = f" | "f = canonical_name_spec f @ ''.tgz''" by blast
  then show ?thesis
  proof cases
    case 1
    with stem show ?thesis by simp
  next
    case 2
    from canonical_tgz_name [OF stem]
    have "canonical (canonical_name_spec f @ ''.tgz'') = canonical_name_spec f" .
    with 2 show ?thesis by simp
  qed
qed

lemma tgz_names_closed:
  assumes "\<forall>f \<in> set lf. \<exists>b. f = b @ ''.tgz'' \<and> canonical b = b"
  shows "\<forall>f \<in> set lf. f = canonical f @ ''.tgz''"
proof
  fix f assume "f \<in> set lf"
  with assms obtain b where "f = b @ ''.tgz''" "canonical b = b" by blast
  then show "f = canonical f @ ''.tgz''" by (simp only: canonical_tgz_name)
qed

section \<open>Evaluating a run\<close>

lemmas run_simps =
  sync_def os_listdir_def yadisk_listdir_def node_type_def local_pass_Cons open_rb_path
  upload_call_def remove_call_def

section \<open>Canonical names\<close>

text \<open>
  C1. The claim: the canonical name of a local file is its name with the suffix
  \<^verbatim>\<open>.tgz\<close> taken off the end, once, and a name that does not end in \<^verbatim>\<open>.tgz\<close> is its own
  canonical name. The script computes \<^verbatim>\<open>file.replace('.tgz', '')\<close>, which takes out every
  occurrence: of \<^verbatim>\<open>my.tgz.world.tgz\<close> it leaves \<^verbatim>\<open>my.world\<close> where suffix removal leaves
  \<^verbatim>\<open>my.tgz.world\<close>, and it changes \<^verbatim>\<open>old.tgz.bak\<close>, which does not end in the suffix, to
  \<^verbatim>\<open>old.bak\<close>.
\<close>

theorem replace_is_not_suffix_removal:
  "replace ''my.tgz.world.tgz'' ''.tgz'' '''' = ''my.world''
   \<and> strip_suffix_spec ''.tgz'' ''my.tgz.world.tgz'' = ''my.tgz.world''
   \<and> replace ''old.tgz.bak'' ''.tgz'' '''' = ''old.bak''
   \<and> strip_suffix_spec ''.tgz'' ''old.tgz.bak'' = ''old.tgz.bak''"
  by (simp add: strip_suffix_spec_def)

section \<open>Deletions and uploads of one run\<close>

lemma disjoint_if_closed:
  assumes "sync w = Inr (cs, w')"
    and "\<forall>f \<in> set (os_listdir w). canonical f @ ''.tgz'' \<in> set (os_listdir w)"
  shows "set (removed cs) \<inter> set (uploaded cs) = {}"
proof -
  from sync_calls [OF assms(1)] assms(2) show ?thesis
    by (auto simp: delete_names_listdir)
qed

lemma upload_in_calls:
  assumes "sync w = Inr (cs, w')" and "Upload (BACKUPS_DIR @ ''/'' @ f) t \<in> set cs"
  shows "f \<in> set (os_listdir w) \<and> t = APP_BACKUPS_DIR @ ''/'' @ canonical f"
  using assms(2) unfolding sync_calls [OF assms(1)]
  by (auto simp: remove_call_def upload_call_def)

text \<open>
  C2, as amended. The claim: in every run the remote names deleted and the canonical
  names uploaded to are disjoint. The canonical name of a local file is its name with
  the suffix \<^verbatim>\<open>.tgz\<close> removed. The claim holds for every completed run on a local
  directory in which, for each name, \<^verbatim>\<open>.tgz\<close> does not occur in its canonical name and
  the canonical name followed by \<^verbatim>\<open>.tgz\<close> is a local name: the paths removed and the
  paths uploaded to are disjoint, and each upload goes to the canonical name of the file
  uploaded.
\<close>

theorem delete_upload_disjoint:
  assumes "sync w = Inr (cs, w')"
    and "\<forall>f \<in> set (os_listdir w).
           \<not> occurs ''.tgz'' (canonical_name_spec f)
           \<and> canonical_name_spec f @ ''.tgz'' \<in> set (os_listdir w)"
  shows "set (removed cs) \<inter> set (uploaded cs) = {}
     \<and> (\<forall>f t. Upload (BACKUPS_DIR @ ''/'' @ f) t \<in> set cs \<longrightarrow>
            f \<in> set (os_listdir w) \<and> t = APP_BACKUPS_DIR @ ''/'' @ canonical_name_spec f)"
proof -
  from assms(2) have same: "canonical f = canonical_name_spec f" if "f \<in> set (os_listdir w)" for f
    using that by (intro canonical_eq_spec) blast
  with assms(2) have "\<forall>f \<in> set (os_listdir w). canonical f @ ''.tgz'' \<in> set (os_listdir w)"
    by simp
  with assms(1) have "set (removed cs) \<inter> set (uploaded cs) = {}"
    by (rule disjoint_if_closed)
  moreover have "f \<in> set (os_listdir w) \<and> t = APP_BACKUPS_DIR @ ''/'' @ canonical_name_spec f"
    if "Upload (BACKUPS_DIR @ ''/'' @ f) t \<in> set cs" for f t
    using upload_in_calls [OF assms(1) that] same by simp
  ultimately show ?thesis by blast
qed

theorem delete_upload_disjoint_witness:
  "\<not> occurs ''.tgz'' (canonical_name_spec ''w1.tgz'')
   \<and> canonical_name_spec ''w1.tgz'' @ ''.tgz'' = ''w1.tgz''
   \<and> \<not> occurs ''.tgz'' (canonical_name_spec ''w2.tgz'')
   \<and> canonical_name_spec ''w2.tgz'' @ ''.tgz'' = ''w2.tgz''
   \<and> sync \<lparr>local_dir = [(''w1.tgz'', RegularFile ''one''), (''w2.tgz'', RegularFile ''two'')],
         disk = [(''w1'', FileNode ''one''), (''w0'', FileNode ''zero'')]\<rparr>
     = Inr ([Remove (APP_BACKUPS_DIR @ ''/w0''),
             Upload (BACKUPS_DIR @ ''/w2.tgz'') (APP_BACKUPS_DIR @ ''/w2'')],
            \<lparr>local_dir = [(''w1.tgz'', RegularFile ''one''), (''w2.tgz'', RegularFile ''two'')],
             disk = [(''w1'', FileNode ''one''), (''w2'', FileNode ''two'')]\<rparr>)
   \<and> set (removed [Remove (APP_BACKUPS_DIR @ ''/w0''),
             Upload (BACKUPS_DIR @ ''/w2.tgz'') (APP_BACKUPS_DIR @ ''/w2'')])
       \<inter> set (uploaded [Remove (APP_BACKUPS_DIR @ ''/w0''),
             Upload (BACKUPS_DIR @ ''/w2.tgz'') (APP_BACKUPS_DIR @ ''/w2'')]) = {}
   \<and> APP_BACKUPS_DIR @ ''/w2'' = APP_BACKUPS_DIR @ ''/'' @ canonical_name_spec ''w2.tgz''"
proof -
  let ?w = "\<lparr>local_dir = [(''w1.tgz'', RegularFile ''one''), (''w2.tgz'', RegularFile ''two'')],
         disk = [(''w1'', FileNode ''one''), (''w0'', FileNode ''zero'')]\<rparr>"
  let ?cs = "[Remove (APP_BACKUPS_DIR @ ''/w0''),
             Upload (BACKUPS_DIR @ ''/w2.tgz'') (APP_BACKUPS_DIR @ ''/w2'')]"
  let ?w' = "\<lparr>local_dir = [(''w1.tgz'', RegularFile ''one''), (''w2.tgz'', RegularFile ''two'')],
             disk = [(''w1'', FileNode ''one''), (''w2'', FileNode ''two'')]\<rparr>"
  have run: "sync ?w = Inr (?cs, ?w')"
    by (simp add: run_simps)
  have n1: "\<not> occurs ''.tgz'' (canonical_name_spec ''w1.tgz'')"
    and c1: "canonical_name_spec ''w1.tgz'' @ ''.tgz'' = ''w1.tgz''"
    and n2: "\<not> occurs ''.tgz'' (canonical_name_spec ''w2.tgz'')"
    and c2: "canonical_name_spec ''w2.tgz'' @ ''.tgz'' = ''w2.tgz''"
    by (simp_all add: strip_suffix_spec_def)
  from n1 c1 n2 c2 have names: "\<forall>f \<in> set (os_listdir ?w).
           \<not> occurs ''.tgz'' (canonical_name_spec f)
           \<and> canonical_name_spec f @ ''.tgz'' \<in> set (os_listdir ?w)"
    by (simp add: os_listdir_def)
  have up: "Upload (BACKUPS_DIR @ ''/'' @ ''w2.tgz'') (APP_BACKUPS_DIR @ ''/w2'') \<in> set ?cs"
    by simp
  from delete_upload_disjoint [OF run names] up have
    "set (removed ?cs) \<inter> set (uploaded ?cs) = {}"
    "APP_BACKUPS_DIR @ ''/w2'' = APP_BACKUPS_DIR @ ''/'' @ canonical_name_spec ''w2.tgz''"
    by blast+
  with run n1 c1 n2 c2 show ?thesis by blast
qed

text \<open>
  Without the condition the claim fails: the first loop looks for the remote name
  followed by \<^verbatim>\<open>.tgz\<close> among the local names, so the local file \<^verbatim>\<open>latest\<close> does not keep
  the remote file \<^verbatim>\<open>latest\<close>, which is removed and then uploaded again.
\<close>

theorem delete_then_upload_same_name:
  "sync \<lparr>local_dir = [(''latest'', RegularFile ''new'')], disk = [(''latest'', FileNode ''old'')]\<rparr>
     = Inr ([Remove (APP_BACKUPS_DIR @ ''/latest''),
             Upload (BACKUPS_DIR @ ''/latest'') (APP_BACKUPS_DIR @ ''/latest'')],
            \<lparr>local_dir = [(''latest'', RegularFile ''new'')], disk = [(''latest'', FileNode ''new'')]\<rparr>)
   \<and> removed [Remove (APP_BACKUPS_DIR @ ''/latest''),
             Upload (BACKUPS_DIR @ ''/latest'') (APP_BACKUPS_DIR @ ''/latest'')]
       = [APP_BACKUPS_DIR @ ''/latest'']
   \<and> uploaded [Remove (APP_BACKUPS_DIR @ ''/latest''),
             Upload (BACKUPS_DIR @ ''/latest'') (APP_BACKUPS_DIR @ ''/latest'')]
       = [APP_BACKUPS_DIR @ ''/latest'']"
  by (simp add: run_simps)

section \<open>Running twice\<close>

lemma second_run_if_closed:
  assumes "sync w = Inr (cs, w')"
    and "\<forall>f \<in> set (os_listdir w). canonical f @ ''.tgz'' \<in> set (os_listdir w)"
  shows "sync w' = Inr ([], w')"
proof -
  let ?lf = "os_listdir w"
  let ?K = "keep_names ?lf (yadisk_listdir (disk w))"
  let ?D = "delete_names ?lf (yadisk_listdir (disk w))"
  have lf: "os_listdir w' = ?lf"
    using sync_local_dir [OF assms(1)] by (simp add: os_listdir_def)
  have files': "set (files (disk w')) =
      (set (files (disk w)) - set ?D) \<union> canonical ` {f \<in> set ?lf. canonical f \<notin> set ?K}"
    by (rule sync_files [OF assms(1)])
  have all_kept: "\<forall>n \<in> set (files (disk w')). n @ ''.tgz'' \<in> set ?lf"
    using assms(2) by (auto simp: files' delete_names_listdir)
  have no_delete: "delete_names ?lf (yadisk_listdir (disk w')) = []"
    using all_kept by (simp add: delete_names_listdir)
  have keep': "keep_names ?lf (yadisk_listdir (disk w')) = files (disk w')"
    using all_kept by (simp add: keep_names_listdir)
  have "\<forall>f \<in> set ?lf. canonical f \<in> set (files (disk w'))"
    by (auto simp: files' keep_names_listdir delete_names_listdir)
  then have "local_pass (files (disk w')) ?lf [] w' = Inr ([], w')"
    by (rule local_pass_skip)
  then show ?thesis
    by (simp add: sync_eq lf no_delete keep')
qed

text \<open>
  C3, as amended. The claim: when a run has completed and a second run is made on the
  remote folder it left and the unchanged local directory, the second run deletes nothing
  and uploads nothing. The canonical name of a local file is its name with the suffix
  \<^verbatim>\<open>.tgz\<close> removed. The claim holds for every local directory in which, for each name,
  \<^verbatim>\<open>.tgz\<close> does not occur in its canonical name and the canonical name followed by
  \<^verbatim>\<open>.tgz\<close> is a local name. The remote folder is changed as the specification says of
  \<^verbatim>\<open>remove\<close> and \<^verbatim>\<open>upload\<close>.
\<close>

theorem second_run_does_nothing:
  assumes "sync w = Inr (cs, w')"
    and "\<forall>f \<in> set (os_listdir w).
           \<not> occurs ''.tgz'' (canonical_name_spec f)
           \<and> canonical_name_spec f @ ''.tgz'' \<in> set (os_listdir w)"
  shows "sync w' = Inr ([], w')"
proof -
  from assms(2) have "canonical f = canonical_name_spec f" if "f \<in> set (os_listdir w)" for f
    using that by (intro canonical_eq_spec) blast
  with assms(2) have "\<forall>f \<in> set (os_listdir w). canonical f @ ''.tgz'' \<in> set (os_listdir w)"
    by simp
  with assms(1) show ?thesis by (rule second_run_if_closed)
qed

theorem second_run_does_nothing_witness:
  "\<not> occurs ''.tgz'' (canonical_name_spec ''w1.tgz'')
   \<and> canonical_name_spec ''w1.tgz'' @ ''.tgz'' = ''w1.tgz''
   \<and> \<not> occurs ''.tgz'' (canonical_name_spec ''w2.tgz'')
   \<and> canonical_name_spec ''w2.tgz'' @ ''.tgz'' = ''w2.tgz''
   \<and> sync \<lparr>local_dir = [(''w1.tgz'', RegularFile ''one''), (''w2.tgz'', RegularFile ''two'')],
         disk = [(''w1'', FileNode ''one''), (''w0'', FileNode ''zero'')]\<rparr>
     = Inr ([Remove (APP_BACKUPS_DIR @ ''/w0''),
             Upload (BACKUPS_DIR @ ''/w2.tgz'') (APP_BACKUPS_DIR @ ''/w2'')],
            \<lparr>local_dir = [(''w1.tgz'', RegularFile ''one''), (''w2.tgz'', RegularFile ''two'')],
             disk = [(''w1'', FileNode ''one''), (''w2'', FileNode ''two'')]\<rparr>)
   \<and> sync \<lparr>local_dir = [(''w1.tgz'', RegularFile ''one''), (''w2.tgz'', RegularFile ''two'')],
             disk = [(''w1'', FileNode ''one''), (''w2'', FileNode ''two'')]\<rparr>
     = Inr ([], \<lparr>local_dir = [(''w1.tgz'', RegularFile ''one''), (''w2.tgz'', RegularFile ''two'')],
             disk = [(''w1'', FileNode ''one''), (''w2'', FileNode ''two'')]\<rparr>)"
proof -
  let ?w = "\<lparr>local_dir = [(''w1.tgz'', RegularFile ''one''), (''w2.tgz'', RegularFile ''two'')],
         disk = [(''w1'', FileNode ''one''), (''w0'', FileNode ''zero'')]\<rparr>"
  let ?cs = "[Remove (APP_BACKUPS_DIR @ ''/w0''),
             Upload (BACKUPS_DIR @ ''/w2.tgz'') (APP_BACKUPS_DIR @ ''/w2'')]"
  let ?w' = "\<lparr>local_dir = [(''w1.tgz'', RegularFile ''one''), (''w2.tgz'', RegularFile ''two'')],
             disk = [(''w1'', FileNode ''one''), (''w2'', FileNode ''two'')]\<rparr>"
  have run: "sync ?w = Inr (?cs, ?w')"
    by (simp add: run_simps)
  have n1: "\<not> occurs ''.tgz'' (canonical_name_spec ''w1.tgz'')"
    and c1: "canonical_name_spec ''w1.tgz'' @ ''.tgz'' = ''w1.tgz''"
    and n2: "\<not> occurs ''.tgz'' (canonical_name_spec ''w2.tgz'')"
    and c2: "canonical_name_spec ''w2.tgz'' @ ''.tgz'' = ''w2.tgz''"
    by (simp_all add: strip_suffix_spec_def)
  from n1 c1 n2 c2 have names: "\<forall>f \<in> set (os_listdir ?w).
           \<not> occurs ''.tgz'' (canonical_name_spec f)
           \<and> canonical_name_spec f @ ''.tgz'' \<in> set (os_listdir ?w)"
    by (simp add: os_listdir_def)
  from second_run_does_nothing [OF run names] run n1 c1 n2 c2 show ?thesis by blast
qed

text \<open>
  Without the condition the claim fails: the local file \<^verbatim>\<open>latest\<close> is uploaded as
  \<^verbatim>\<open>latest\<close> by the first run, and the second run, which looks for \<^verbatim>\<open>latest.tgz\<close> among
  the local names, removes the remote file and uploads it again.
\<close>

theorem second_run_repeats:
  "sync \<lparr>local_dir = [(''latest'', RegularFile ''new'')], disk = []\<rparr>
     = Inr ([Upload (BACKUPS_DIR @ ''/latest'') (APP_BACKUPS_DIR @ ''/latest'')],
            \<lparr>local_dir = [(''latest'', RegularFile ''new'')], disk = [(''latest'', FileNode ''new'')]\<rparr>)
   \<and> sync \<lparr>local_dir = [(''latest'', RegularFile ''new'')], disk = [(''latest'', FileNode ''new'')]\<rparr>
     = Inr ([Remove (APP_BACKUPS_DIR @ ''/latest''),
             Upload (BACKUPS_DIR @ ''/latest'') (APP_BACKUPS_DIR @ ''/latest'')],
            \<lparr>local_dir = [(''latest'', RegularFile ''new'')], disk = [(''latest'', FileNode ''new'')]\<rparr>)"
  by (simp add: run_simps)

section \<open>The files a run leaves alone\<close>

text \<open>
  C4, as amended. The claim: a remote file is neither deleted nor uploaded again if and
  only if its name is the canonical name of a local file, a local file of the same name
  without \<^verbatim>\<open>.tgz\<close> included. What holds: a remote file \<open>r\<close> is neither deleted nor
  uploaded again if and only if \<open>r\<close> followed by \<^verbatim>\<open>.tgz\<close> is a local name; and when every
  local name is its canonical name followed by \<^verbatim>\<open>.tgz\<close>, this is the case if and only if
  \<open>r\<close> is the canonical name of a local file.
\<close>

theorem untouched_iff_tgz_name_local:
  assumes "sync w = Inr (cs, w')" and "r \<in> set (files (disk w))"
  shows "((APP_BACKUPS_DIR @ ''/'' @ r \<notin> set (removed cs)
            \<and> APP_BACKUPS_DIR @ ''/'' @ r \<notin> set (uploaded cs))
          \<longleftrightarrow> r @ ''.tgz'' \<in> set (os_listdir w))
         \<and> ((\<forall>f \<in> set (os_listdir w). f = canonical f @ ''.tgz'') \<longrightarrow>
             ((APP_BACKUPS_DIR @ ''/'' @ r \<notin> set (removed cs)
                 \<and> APP_BACKUPS_DIR @ ''/'' @ r \<notin> set (uploaded cs))
              \<longleftrightarrow> r \<in> canonical ` set (os_listdir w)))"
proof -
  let ?lf = "os_listdir w"
  have first: "(APP_BACKUPS_DIR @ ''/'' @ r \<notin> set (removed cs)
            \<and> APP_BACKUPS_DIR @ ''/'' @ r \<notin> set (uploaded cs))
          \<longleftrightarrow> r @ ''.tgz'' \<in> set ?lf"
    using sync_calls [OF assms(1)] assms(2)
    by (auto simp: delete_names_listdir keep_names_listdir)
  have second: "r @ ''.tgz'' \<in> set ?lf \<longleftrightarrow> r \<in> canonical ` set ?lf"
    if wf: "\<forall>f \<in> set ?lf. f = canonical f @ ''.tgz''"
  proof
    assume "r @ ''.tgz'' \<in> set ?lf"
    moreover from this wf have "r @ ''.tgz'' = canonical (r @ ''.tgz'') @ ''.tgz''" by blast
    ultimately show "r \<in> canonical ` set ?lf" by force
  next
    assume "r \<in> canonical ` set ?lf"
    then obtain f where "f \<in> set ?lf" "r = canonical f" by blast
    with wf show "r @ ''.tgz'' \<in> set ?lf" by metis
  qed
  from first second show ?thesis by blast
qed

theorem untouched_iff_tgz_name_local_witness:
  "sync \<lparr>local_dir = [(''w1.tgz'', RegularFile ''one'')],
         disk = [(''w1'', FileNode ''one''), (''w0'', FileNode ''zero'')]\<rparr>
     = Inr ([Remove (APP_BACKUPS_DIR @ ''/w0'')],
            \<lparr>local_dir = [(''w1.tgz'', RegularFile ''one'')], disk = [(''w1'', FileNode ''one'')]\<rparr>)
   \<and> ''w1'' \<in> set (files [(''w1'', FileNode ''one''), (''w0'', FileNode ''zero'')])
   \<and> ''w1.tgz'' = canonical ''w1.tgz'' @ ''.tgz''
   \<and> APP_BACKUPS_DIR @ ''/'' @ ''w1'' \<notin> set (removed [Remove (APP_BACKUPS_DIR @ ''/w0'')])
   \<and> APP_BACKUPS_DIR @ ''/'' @ ''w1'' \<notin> set (uploaded [Remove (APP_BACKUPS_DIR @ ''/w0'')])
   \<and> ''w1'' @ ''.tgz'' \<in> set [''w1.tgz'']
   \<and> ''w1'' \<in> canonical ` set [''w1.tgz'']"
proof -
  let ?w = "\<lparr>local_dir = [(''w1.tgz'', RegularFile ''one'')],
         disk = [(''w1'', FileNode ''one''), (''w0'', FileNode ''zero'')]\<rparr>"
  let ?cs = "[Remove (APP_BACKUPS_DIR @ ''/w0'')]"
  let ?w' = "\<lparr>local_dir = [(''w1.tgz'', RegularFile ''one'')], disk = [(''w1'', FileNode ''one'')]\<rparr>"
  have run: "sync ?w = Inr (?cs, ?w')"
    by (simp add: run_simps)
  have r: "''w1'' \<in> set (files (disk ?w))" by simp
  have names: "\<forall>f \<in> set (os_listdir ?w). f = canonical f @ ''.tgz''"
    by (simp add: os_listdir_def)
  have lf: "os_listdir ?w = [''w1.tgz'']" by (simp add: os_listdir_def)
  have c1: "''w1.tgz'' = canonical ''w1.tgz'' @ ''.tgz''" by simp
  from untouched_iff_tgz_name_local [OF run r] names have
    "APP_BACKUPS_DIR @ ''/'' @ ''w1'' \<notin> set (removed ?cs)
     \<and> APP_BACKUPS_DIR @ ''/'' @ ''w1'' \<notin> set (uploaded ?cs)
     \<and> ''w1'' @ ''.tgz'' \<in> set (os_listdir ?w)
     \<and> ''w1'' \<in> canonical ` set (os_listdir ?w)"
    by simp
  with run r c1 show ?thesis unfolding lf by simp
qed

text \<open>
  The claim as it stands fails: \<^verbatim>\<open>world\<close> is the canonical name of the local file
  \<^verbatim>\<open>world\<close>, and the remote file \<^verbatim>\<open>world\<close> is removed all the same, since \<^verbatim>\<open>world.tgz\<close> is
  not a local name.
\<close>

theorem same_name_does_not_protect:
  "canonical ''world'' = ''world''
   \<and> sync \<lparr>local_dir = [(''world'', RegularFile ''new'')], disk = [(''world'', FileNode ''old'')]\<rparr>
     = Inr ([Remove (APP_BACKUPS_DIR @ ''/world''),
             Upload (BACKUPS_DIR @ ''/world'') (APP_BACKUPS_DIR @ ''/world'')],
            \<lparr>local_dir = [(''world'', RegularFile ''new'')], disk = [(''world'', FileNode ''new'')]\<rparr>)"
  by (simp add: run_simps)

section \<open>What a run leaves on the disk\<close>

text \<open>
  On local names with \<^verbatim>\<open>.tgz\<close> at the end only, every remote file after a run bears the
  canonical name of a local file.
\<close>

lemma purge_with_tgz_names:
  assumes "sync w = Inr (cs, w')"
    and "\<forall>f \<in> set (os_listdir w). f = canonical f @ ''.tgz''"
  shows "set (files (disk w')) \<subseteq> canonical ` set (os_listdir w)"
proof
  fix n assume "n \<in> set (files (disk w'))"
  then consider "n \<in> set (files (disk w))" "n @ ''.tgz'' \<in> set (os_listdir w)"
    | "n \<in> canonical ` set (os_listdir w)"
    by (auto simp: sync_files [OF assms(1)] delete_names_listdir)
  then show "n \<in> canonical ` set (os_listdir w)"
  proof cases
    case 1
    with assms(2) have "n @ ''.tgz'' = canonical (n @ ''.tgz'') @ ''.tgz''" by blast
    then have "n = canonical (n @ ''.tgz'')" by simp
    with 1 show ?thesis by blast
  next
    case 2
    then show ?thesis .
  qed
qed

text \<open>
  C5. The claim: after a completed run every remote file, kept or newly uploaded, bears
  the canonical name of a local file. The run below keeps the remote file \<^verbatim>\<open>w.tgz\<close>,
  because \<^verbatim>\<open>w.tgz.tgz\<close> is a local name, and uploads the local file \<^verbatim>\<open>w.tgz.tgz\<close> as
  \<^verbatim>\<open>w\<close>, because \<^verbatim>\<open>replace\<close> takes out both occurrences of \<^verbatim>\<open>.tgz\<close>. The remote files
  are then \<^verbatim>\<open>w.tgz\<close> and \<^verbatim>\<open>w\<close>, and the local directory has one canonical name: \<^verbatim>\<open>w\<close> as
  the script computes it, \<^verbatim>\<open>w.tgz\<close> by suffix removal.
\<close>

theorem purge_leaves_unmatched_name:
  "sync \<lparr>local_dir = [(''w.tgz.tgz'', RegularFile ''new'')], disk = [(''w.tgz'', FileNode ''old'')]\<rparr>
     = Inr ([Upload (BACKUPS_DIR @ ''/w.tgz.tgz'') (APP_BACKUPS_DIR @ ''/w'')],
            \<lparr>local_dir = [(''w.tgz.tgz'', RegularFile ''new'')],
             disk = [(''w.tgz'', FileNode ''old''), (''w'', FileNode ''new'')]\<rparr>)
   \<and> files [(''w.tgz'', FileNode ''old''), (''w'', FileNode ''new'')] = [''w.tgz'', ''w'']
   \<and> map canonical [''w.tgz.tgz''] = [''w'']
   \<and> map (strip_suffix_spec ''.tgz'') [''w.tgz.tgz''] = [''w.tgz'']"
  by (simp add: run_simps strip_suffix_spec_def)

section \<open>The order of the calls\<close>

text \<open>
  C6. In every run the calls that change the remote folder are the removals of the
  first loop, in listing order, followed by the uploads of the second loop, each decided
  against the names the first loop kept: no upload stands before a removal.
\<close>

theorem deletions_before_uploads:
  assumes "sync w = Inr (cs, w')"
  shows "cs = map remove_call
                (filter (\<lambda>n. n @ ''.tgz'' \<notin> set (os_listdir w)) (files (disk w)))
              @ map upload_call
                  (filter (\<lambda>f. canonical f \<notin>
                      set (filter (\<lambda>n. n @ ''.tgz'' \<in> set (os_listdir w)) (files (disk w))))
                    (os_listdir w))
         \<and> (\<forall>i j. i < j \<and> j < length cs \<longrightarrow> \<not> (is_upload (cs ! i) \<and> is_remove (cs ! j)))"
proof -
  let ?D = "filter (\<lambda>n. n @ ''.tgz'' \<notin> set (os_listdir w)) (files (disk w))"
  let ?U = "filter (\<lambda>f. canonical f \<notin>
                      set (filter (\<lambda>n. n @ ''.tgz'' \<in> set (os_listdir w)) (files (disk w))))
                    (os_listdir w)"
  have cs: "cs = map remove_call ?D @ map upload_call ?U"
    using sync_calls [OF assms] by (simp add: delete_names_listdir keep_names_listdir)
  have "\<not> (is_upload (cs ! i) \<and> is_remove (cs ! j))" if "i < j" "j < length cs" for i j
  proof (cases "j < length ?D")
    case True
    with that have "cs ! i = remove_call (?D ! i)"
      by (simp add: cs nth_append)
    then show ?thesis by (simp add: remove_call_def)
  next
    case False
    with that have "cs ! j = upload_call (?U ! (j - length ?D))"
      by (simp add: cs nth_append)
    then show ?thesis by (simp add: upload_call_def)
  qed
  with cs show ?thesis by blast
qed

theorem deletions_before_uploads_witness:
  "sync \<lparr>local_dir = [(''w1.tgz'', RegularFile ''one''), (''w2.tgz'', RegularFile ''two'')],
         disk = [(''w1'', FileNode ''one''), (''w0'', FileNode ''zero'')]\<rparr>
     = Inr ([Remove (APP_BACKUPS_DIR @ ''/w0''),
             Upload (BACKUPS_DIR @ ''/w2.tgz'') (APP_BACKUPS_DIR @ ''/w2'')],
            \<lparr>local_dir = [(''w1.tgz'', RegularFile ''one''), (''w2.tgz'', RegularFile ''two'')],
             disk = [(''w1'', FileNode ''one''), (''w2'', FileNode ''two'')]\<rparr>)
   \<and> \<not> (is_upload ([Remove (APP_BACKUPS_DIR @ ''/w0''),
             Upload (BACKUPS_DIR @ ''/w2.tgz'') (APP_BACKUPS_DIR @ ''/w2'')] ! 0)
         \<and> is_remove ([Remove (APP_BACKUPS_DIR @ ''/w0''),
             Upload (BACKUPS_DIR @ ''/w2.tgz'') (APP_BACKUPS_DIR @ ''/w2'')] ! Suc 0))"
proof -
  let ?w = "\<lparr>local_dir = [(''w1.tgz'', RegularFile ''one''), (''w2.tgz'', RegularFile ''two'')],
         disk = [(''w1'', FileNode ''one''), (''w0'', FileNode ''zero'')]\<rparr>"
  let ?cs = "[Remove (APP_BACKUPS_DIR @ ''/w0''),
             Upload (BACKUPS_DIR @ ''/w2.tgz'') (APP_BACKUPS_DIR @ ''/w2'')]"
  let ?w' = "\<lparr>local_dir = [(''w1.tgz'', RegularFile ''one''), (''w2.tgz'', RegularFile ''two'')],
             disk = [(''w1'', FileNode ''one''), (''w2'', FileNode ''two'')]\<rparr>"
  have run: "sync ?w = Inr (?cs, ?w')"
    by (simp add: run_simps)
  from deletions_before_uploads [OF run] have
    "\<forall>i j. i < j \<and> j < length ?cs \<longrightarrow> \<not> (is_upload (?cs ! i) \<and> is_remove (?cs ! j))"
    by blast
  then have "0 < Suc 0 \<and> Suc 0 < length ?cs
      \<longrightarrow> \<not> (is_upload (?cs ! 0) \<and> is_remove (?cs ! Suc 0))"
    by blast
  then have "\<not> (is_upload (?cs ! 0) \<and> is_remove (?cs ! Suc 0))"
    by simp
  with run show ?thesis by blast
qed

section \<open>Empty directories\<close>

text \<open>
  With an empty local directory the run removes every remote file, in listing order,
  uploads nothing and leaves no remote file; with both directories empty it makes no
  call and changes nothing.
\<close>

lemma empty_local_dir:
  "\<exists>w'. sync \<lparr>local_dir = [], disk = d\<rparr> = Inr (map remove_call (files d), w')
          \<and> files (disk w') = []"
proof -
  have no_local: "delete_names [] (yadisk_listdir d) = files d"
    by (simp add: delete_names_listdir)
  have "set (files (fold AList.delete (files d) d)) = {}"
    by (simp add: set_files_fold_delete)
  then have "files (fold AList.delete (files d) d) = []"
    by simp
  then show ?thesis
    by (simp add: sync_eq os_listdir_def no_local)
qed

lemma both_empty:
  "sync \<lparr>local_dir = [], disk = []\<rparr> = Inr ([], \<lparr>local_dir = [], disk = []\<rparr>)"
  by (simp add: run_simps)

text \<open>
  With an empty remote folder a completed run removes nothing and uploads every local
  file; where \<^verbatim>\<open>.tgz\<close> does not occur in the canonical names of the local files, each
  goes to its canonical name, the name with the suffix \<^verbatim>\<open>.tgz\<close> removed.
\<close>

lemma empty_remote_folder:
  assumes "sync \<lparr>local_dir = l, disk = []\<rparr> = Inr (cs, w')"
    and "\<forall>f \<in> set (map fst l). \<not> occurs ''.tgz'' (canonical_name_spec f)"
  shows "cs = map (\<lambda>f. Upload (BACKUPS_DIR @ ''/'' @ f)
                          (APP_BACKUPS_DIR @ ''/'' @ canonical_name_spec f)) (map fst l)"
proof -
  from sync_calls [OF assms(1)] have "cs = map upload_call (map fst l)"
    by (simp add: os_listdir_def yadisk_listdir_def keep_names_def delete_names_def)
  moreover have "upload_call f = Upload (BACKUPS_DIR @ ''/'' @ f)
                          (APP_BACKUPS_DIR @ ''/'' @ canonical_name_spec f)"
    if "f \<in> set (map fst l)" for f
  proof -
    from assms(2) that have "\<not> occurs ''.tgz'' (canonical_name_spec f)" by blast
    then have "canonical f = canonical_name_spec f" by (rule canonical_eq_spec)
    then show ?thesis by (simp add: upload_call_def)
  qed
  ultimately show ?thesis by (simp only: map_eq_conv) blast
qed

text \<open>
  C7. The claim: with an empty local directory the run deletes every remote file and
  uploads nothing; with an empty remote folder it deletes nothing and uploads every local
  file under its canonical name; with both empty it does nothing. The second part fails
  on the run below: the remote folder is empty, and the local file \<^verbatim>\<open>my.tgz.world.tgz\<close>,
  whose canonical name is \<^verbatim>\<open>my.tgz.world\<close>, is uploaded as \<^verbatim>\<open>my.world\<close>, since \<^verbatim>\<open>replace\<close>
  takes out both occurrences of \<^verbatim>\<open>.tgz\<close>.
\<close>

theorem upload_not_under_canonical_name:
  "sync \<lparr>local_dir = [(''my.tgz.world.tgz'', RegularFile ''data'')], disk = []\<rparr>
     = Inr ([Upload (BACKUPS_DIR @ ''/my.tgz.world.tgz'') (APP_BACKUPS_DIR @ ''/my.world'')],
            \<lparr>local_dir = [(''my.tgz.world.tgz'', RegularFile ''data'')],
             disk = [(''my.world'', FileNode ''data'')]\<rparr>)
   \<and> canonical_name_spec ''my.tgz.world.tgz'' = ''my.tgz.world''"
  by (simp add: run_simps strip_suffix_spec_def)

section \<open>How the process ends\<close>

text \<open>
  C8, as amended. The claim: on a keyboard interrupt the process exits with status 1
  and no traceback; any other exception that reaches the top level is caught, logged
  with its traceback, and the process exits with a status other than 0. What holds: on
  a keyboard interrupt the process exits with status 1, nothing is logged and no
  traceback is printed; an exception of a class derived from \<^verbatim>\<open>Exception\<close> is caught, passed
  to \<^verbatim>\<open>logging.exception\<close>, and the script then runs to its end, so the exit status is 0.
\<close>

theorem exit_semantics:
  "script (Inl KeyboardInterrupt)
     = \<lparr>exit_status = 1, logged = [], traceback_printed = False\<rparr>
   \<and> script (Inl (ExceptionSubclass c))
     = \<lparr>exit_status = 0, logged = [ExceptionSubclass c], traceback_printed = False\<rparr>"
  by (simp add: script_def)

text \<open>The claim as it stands fails: after the handler has logged the exception, the exit status is 0.\<close>

theorem logged_exception_exits_zero:
  "exit_status (script (Inl (ExceptionSubclass ''ConnectionError''))) = 0"
  by (simp add: script_def)

section \<open>Local files with one canonical name\<close>

text \<open>
  Where \<^verbatim>\<open>.tgz\<close> does not occur in the canonical names of the local files and the remote
  folder has no file \<open>c\<close>, the uploads of a completed run to the remote path of \<open>c\<close> are
  those of all local files with canonical name \<open>c\<close>, one for each, in listing order, and
  the remote file \<open>c\<close> ends with the bytes of the last of them. The overwriting is that of
  \<^verbatim>\<open>upload\<close> as the specification gives it.
\<close>

lemma duplicates_uploaded:
  assumes "sync w = Inr (cs, w')"
    and "c \<notin> set (files (disk w))"
    and "\<forall>f \<in> set (os_listdir w). \<not> occurs ''.tgz'' (canonical_name_spec f)"
  shows "upload_sources (APP_BACKUPS_DIR @ ''/'' @ c) cs =
           map (\<lambda>f. BACKUPS_DIR @ ''/'' @ f)
             (filter (\<lambda>f. canonical_name_spec f = c) (os_listdir w))"
    and "filter (\<lambda>f. canonical_name_spec f = c) (os_listdir w) \<noteq> [] \<Longrightarrow>
         \<exists>b. map_of (local_dir w)
                (last (filter (\<lambda>f. canonical_name_spec f = c) (os_listdir w)))
                = Some (RegularFile b)
            \<and> map_of (disk w') c = Some (FileNode b)"
proof -
  let ?lf = "os_listdir w"
  let ?K = "keep_names ?lf (yadisk_listdir (disk w))"
  let ?G = "filter (\<lambda>f. canonical_name_spec f = c) ?lf"
  have "set ?K \<subseteq> set (files (disk w))"
    by (auto simp: keep_names_listdir)
  with assms(2) have c: "c \<notin> set ?K" by blast
  from assms(3) have same: "filter (\<lambda>f. canonical f = c) ?lf = ?G"
    by (intro filter_cong refl) (simp add: canonical_eq_spec)
  have "filter (\<lambda>f. canonical f = c) (filter (\<lambda>f. canonical f \<notin> set ?K) ?lf)
          = filter (\<lambda>f. canonical f = c) ?lf"
    using c by (auto intro: filter_cong)
  with sync_calls [OF assms(1)] same
  show "upload_sources (APP_BACKUPS_DIR @ ''/'' @ c) cs = map (\<lambda>f. BACKUPS_DIR @ ''/'' @ f) ?G"
    by simp
  assume "?G \<noteq> []"
  with local_pass_content [OF assms(1) [unfolded sync_eq] c] same
  have "map_of (disk w') c =
          (case map_of (local_dir w) (last ?G) of
             Some (RegularFile b) \<Rightarrow> Some (FileNode b) | _ \<Rightarrow> None)"
    by simp
  moreover
  from \<open>?G \<noteq> []\<close> have "last ?G \<in> set ?G" by (rule last_in_set)
  then have in_lf: "last ?G \<in> set ?lf" and name: "canonical_name_spec (last ?G) = c"
    by simp_all
  from in_lf assms(3) have "canonical (last ?G) = canonical_name_spec (last ?G)"
    by (intro canonical_eq_spec) blast
  with name c have "canonical (last ?G) \<notin> set ?K" by simp
  from local_pass_opened [OF assms(1) [unfolded sync_eq] in_lf this]
  obtain b where "map_of (local_dir w) (last ?G) = Some (RegularFile b)"
    by auto
  ultimately show "\<exists>b. map_of (local_dir w) (last ?G) = Some (RegularFile b)
            \<and> map_of (disk w') c = Some (FileNode b)"
    by simp
qed

text \<open>
  C9. The claim: when two entries of the local listing have the same canonical name and
  the remote folder does not hold that name, each entry is uploaded to the same remote
  path, and the upload made last stays. In the run below the local files
  \<^verbatim>\<open>a.tgz.b.tgz\<close> and \<^verbatim>\<open>a.tgz.b\<close> have the canonical name \<^verbatim>\<open>a.tgz.b\<close>, which the remote
  folder does not hold, and neither is uploaded: \<^verbatim>\<open>replace\<close> makes \<^verbatim>\<open>a.b\<close> of both, and the
  remote file \<^verbatim>\<open>a.b\<close> is kept for the local file \<^verbatim>\<open>a.b.tgz\<close>. The run makes no call at all.
\<close>

theorem duplicates_not_uploaded:
  "map canonical_name_spec [''a.tgz.b.tgz'', ''a.tgz.b'', ''a.b.tgz'']
     = [''a.tgz.b'', ''a.tgz.b'', ''a.b'']
   \<and> ''a.tgz.b'' \<notin> fst ` set [(''a.b'', FileNode ''old'')]
   \<and> sync \<lparr>local_dir = [(''a.tgz.b.tgz'', RegularFile ''one''),
                         (''a.tgz.b'', RegularFile ''two''),
                         (''a.b.tgz'', RegularFile ''three'')],
             disk = [(''a.b'', FileNode ''old'')]\<rparr>
     = Inr ([], \<lparr>local_dir = [(''a.tgz.b.tgz'', RegularFile ''one''),
                              (''a.tgz.b'', RegularFile ''two''),
                              (''a.b.tgz'', RegularFile ''three'')],
                 disk = [(''a.b'', FileNode ''old'')]\<rparr>)"
  by (simp add: run_simps strip_suffix_spec_def)

section \<open>Remote directories\<close>

text \<open>
  C10. An entry of the remote listing whose type is not \<^verbatim>\<open>file\<close> is passed over by the
  first loop: the loop does on a listing what it does on the file entries of the listing
  alone. So a remote directory \<open>d\<close> is not removed, \<open>d\<close> is not among the names kept, and
  every local file with canonical name \<open>d\<close> is uploaded. The names of a folder are
  distinct.
\<close>

theorem non_file_entries_skipped:
  assumes "sync w = Inr (cs, w')"
    and "(d, DirNode) \<in> set (disk w)" and "distinct (map fst (disk w))"
  shows "remote_pass lf es yf cs0 d0 =
           remote_pass lf (filter (\<lambda>e. type e = ''file'') es) yf cs0 d0
     \<and> remove_call d \<notin> set cs
     \<and> d \<notin> set (fst (remote_pass (os_listdir w) (yadisk_listdir (disk w)) [] [] (disk w)))
     \<and> (\<forall>f \<in> set (os_listdir w). canonical f = d \<longrightarrow> upload_call f \<in> set cs)"
proof -
  have skip: "remote_pass lf es yf cs0 d0 =
           remote_pass lf (filter (\<lambda>e. type e = ''file'') es) yf cs0 d0"
    by (simp add: remote_pass_eq keep_names_def delete_names_def conj_commute)
  have "(d, FileNode b) \<notin> set (disk w)" for b
    using assms(2,3) by (metis eq_key_imp_eq_value node.distinct(1))
  then have d: "d \<notin> set (files (disk w))"
    by (simp add: set_files)
  note cs = sync_calls [OF assms(1)]
  from d have no_remove: "remove_call d \<notin> set cs"
    by (auto simp: cs delete_names_listdir remove_call_def upload_call_def)
  from d have no_keep:
    "d \<notin> set (fst (remote_pass (os_listdir w) (yadisk_listdir (disk w)) [] [] (disk w)))"
    by (simp add: remote_pass_eq keep_names_listdir)
  from d have up: "\<forall>f \<in> set (os_listdir w). canonical f = d \<longrightarrow> upload_call f \<in> set cs"
    by (auto simp: cs keep_names_listdir)
  from skip no_remove no_keep up show ?thesis by blast
qed

theorem non_file_entries_skipped_witness:
  "(''d'', DirNode) \<in> set [(''d'', DirNode)]
   \<and> distinct (map fst [(''d'', DirNode)])
   \<and> canonical ''d.tgz'' = ''d''
   \<and> (\<exists>w'. sync \<lparr>local_dir = [(''d.tgz'', RegularFile ''data'')], disk = [(''d'', DirNode)]\<rparr>
            = Inr ([upload_call ''d.tgz''], w'))
   \<and> remove_call ''d'' \<notin> set [upload_call ''d.tgz'']
   \<and> ''d'' \<notin> set (fst (remote_pass [''d.tgz''] [\<lparr>name = ''d'', type = ''dir''\<rparr>] [] []
                          [(''d'', DirNode)]))
   \<and> upload_call ''d.tgz'' \<in> set [upload_call ''d.tgz'']"
proof -
  let ?w = "\<lparr>local_dir = [(''d.tgz'', RegularFile ''data'')], disk = [(''d'', DirNode)]\<rparr>"
  let ?w' = "\<lparr>local_dir = [(''d.tgz'', RegularFile ''data'')], disk = [(''d'', FileNode ''data'')]\<rparr>"
  have run: "sync ?w = Inr ([upload_call ''d.tgz''], ?w')"
    by (simp add: run_simps)
  have dir: "(''d'', DirNode) \<in> set (disk ?w)" by simp
  have names: "distinct (map fst (disk ?w))" by simp
  have c: "canonical ''d.tgz'' = ''d''" by simp
  have lf: "os_listdir ?w = [''d.tgz'']" by (simp add: os_listdir_def)
  have ls: "yadisk_listdir (disk ?w) = [\<lparr>name = ''d'', type = ''dir''\<rparr>]"
    by (simp add: yadisk_listdir_def node_type_def)
  from non_file_entries_skipped [OF run dir names] have
    "remove_call ''d'' \<notin> set [upload_call ''d.tgz'']"
    "''d'' \<notin> set (fst (remote_pass (os_listdir ?w) (yadisk_listdir (disk ?w)) [] [] (disk ?w)))"
    "\<forall>f \<in> set (os_listdir ?w). canonical f = ''d'' \<longrightarrow> upload_call f \<in> set [upload_call ''d.tgz'']"
    by blast+
  with run c show ?thesis unfolding lf ls by auto
qed

end
